theory Spec2Isabelle
  imports Main "HOL-Library.Char_ord" "HOL-Library.List_Lexorder" "HOL-Library.Sublist"
begin

section \<open>Calendar API backend (backend/app.py)\<close>

text \<open>
  The development embeds the validators, the retention clean-up and the list and update
  handlers of \<^verbatim>\<open>backend/app.py\<close>.

  A Python \<^verbatim>\<open>str\<close> is modelled as a \<open>string\<close> whose every \<open>char\<close> stands for one code
  point below 256 (Latin-1), so \<open>length\<close> counts code points as Python's \<^verbatim>\<open>len\<close> does.
  The wall clock that \<^verbatim>\<open>datetime.now()\<close> reads is an explicit argument \<open>now\<close> of every
  function that calls it. The \<^verbatim>\<open>events\<close> table is the list of its rows in rowid order.
\<close>

subsection \<open>Characters and the string methods used\<close>

definition isspace :: "char \<Rightarrow> bool" where
  \<comment> \<open>\<^verbatim>\<open>str.isspace\<close> on the code points below 256: TAB..CR, FS..US, space, NEL, NBSP\<close>
  "isspace c = (let n = (of_char c :: nat) in
     (9 \<le> n \<and> n \<le> 13) \<or> (28 \<le> n \<and> n \<le> 32) \<or> n = 133 \<or> n = 160)"

definition isalpha :: "char \<Rightarrow> bool" where
  \<comment> \<open>\<^verbatim>\<open>str.isalpha\<close> on the code points below 256\<close>
  "isalpha c = (let n = (of_char c :: nat) in
     (65 \<le> n \<and> n \<le> 90) \<or> (97 \<le> n \<and> n \<le> 122) \<or> n = 170 \<or> n = 181 \<or> n = 186 \<or>
     (192 \<le> n \<and> n \<le> 214) \<or> (216 \<le> n \<and> n \<le> 246) \<or> (248 \<le> n \<and> n \<le> 255))"

definition isdigit :: "char \<Rightarrow> bool" where
  \<comment> \<open>the regular expression class \<^verbatim>\<open>\d\<close> on the code points below 256\<close>
  "isdigit c = (let n = (of_char c :: nat) in 48 \<le> n \<and> n \<le> 57)"

definition strip :: "string \<Rightarrow> string" where
  \<comment> \<open>\<^verbatim>\<open>str.strip()\<close>: leading and trailing whitespace removed\<close>
  "strip s = rev (dropWhile isspace (rev (dropWhile isspace s)))"

function split :: "string \<Rightarrow> string list" where
  \<comment> \<open>\<^verbatim>\<open>str.split()\<close> without arguments: the maximal runs of non-whitespace\<close>
  "split s =
     (case dropWhile isspace s of
        [] \<Rightarrow> []
      | c # cs \<Rightarrow> (c # takeWhile (\<lambda>x. \<not> isspace x) cs) # split (dropWhile (\<lambda>x. \<not> isspace x) cs))"
  by pat_completeness auto
termination
proof (relation "measure length")
  show "wf (measure length)" by simp
next
  fix s :: string and c cs
  assume h: "dropWhile isspace s = c # cs"
  have "length (dropWhile (\<lambda>x. \<not> isspace x) cs) \<le> length cs"
    by (rule length_dropWhile_le)
  moreover have "length (c # cs) \<le> length s"
    using length_dropWhile_le [of isspace s] h by simp
  ultimately show "(dropWhile (\<lambda>x. \<not> isspace x) cs, s) \<in> measure length"
    by simp
qed

declare split.simps [simp del]

definition digit_char :: "nat \<Rightarrow> char" where
  "digit_char n = char_of (48 + n)"

function str_nat :: "nat \<Rightarrow> string" where
  \<comment> \<open>\<^verbatim>\<open>str(n)\<close> of a non-negative integer\<close>
  "str_nat n = (if n < 10 then [digit_char n] else str_nat (n div 10) @ [digit_char (n mod 10)])"
  by pat_completeness auto
termination
  by (relation "measure id") auto

declare str_nat.simps [simp del]

definition int_str :: "string \<Rightarrow> nat" where
  \<comment> \<open>\<^verbatim>\<open>int(s)\<close> on the text a directive matched: surrounding whitespace ignored, decimal digits read\<close>
  "int_str s = foldl (\<lambda>a c. 10 * a + (of_char c - 48)) 0 (strip s)"

definition zfill :: "nat \<Rightarrow> string \<Rightarrow> string" where
  "zfill w s = replicate (w - length s) (CHR ''0'') @ s"

subsection \<open>validate_title and validate_notes\<close>

definition validate_title :: "string \<Rightarrow> bool \<times> string" where
  "validate_title title =
     (if length (strip title) < 5 then (False, ''Title must be at least 5 characters long'')
      else if \<not> list_ex isalpha title then (False, ''Title must contain at least one letter'')
      else (True, ''''))"

definition validate_notes :: "string \<Rightarrow> bool \<times> string" where
  "validate_notes notes =
     (if notes = [] \<or> strip notes = [] then (True, '''')
      else let word_count = length (split (strip notes)) in
        if word_count > 23
        then (False, ''Notes must be maximum 23 words (currently '' @ str_nat word_count @ '')'')
        else (True, ''''))"

subsection \<open>datetime, strptime with the format %d/%m/%Y, strftime with %Y-%m-%d\<close>

record datetime =
  year :: nat
  month :: nat
  day :: nat
  hour :: nat
  minute :: nat
  second :: nat
  microsecond :: nat

definition is_leap :: "nat \<Rightarrow> bool" where
  "is_leap y = (y mod 4 = 0 \<and> (y mod 100 \<noteq> 0 \<or> y mod 400 = 0))"

definition days_in_month :: "nat \<Rightarrow> nat \<Rightarrow> nat" where
  "days_in_month y m =
     (if m = 2 \<and> is_leap y then 29
      else [0, 31, 28, 31, 30, 31, 30, 31, 31, 30, 31, 30, 31] ! m)"

definition in_range :: "char \<Rightarrow> char \<Rightarrow> char \<Rightarrow> bool" where
  \<comment> \<open>the character class \<^verbatim>\<open>[a-b]\<close>\<close>
  "in_range a b c = ((of_char a :: nat) \<le> of_char c \<and> (of_char c :: nat) \<le> of_char b)"

text \<open>
  \<^verbatim>\<open>_strptime\<close> turns the format into the regular expression
  \<^verbatim>\<open>(?P<d>3[0-1]|[1-2]\d|0[1-9]|[1-9]| [1-9])/(?P<m>1[0-2]|0[1-9]|[1-9])/(?P<Y>\d\d\d\d)\<close>.
  Each group is modelled by the list of its matches at the head of the input, in the order
  of its alternatives, every match paired with the input left after it; the matcher takes
  the first combination that gets through the whole expression, as backtracking does.
\<close>

definition re_d :: "string \<Rightarrow> (string \<times> string) list" where
  "re_d s =
     (case s of
        [] \<Rightarrow> []
      | [a] \<Rightarrow> (if in_range (CHR ''1'') (CHR ''9'') a then [([a], [])] else [])
      | a # b # r \<Rightarrow>
          (if a = CHR ''3'' \<and> in_range (CHR ''0'') (CHR ''1'') b then [([a, b], r)] else []) @
          (if in_range (CHR ''1'') (CHR ''2'') a \<and> isdigit b then [([a, b], r)] else []) @
          (if a = CHR ''0'' \<and> in_range (CHR ''1'') (CHR ''9'') b then [([a, b], r)] else []) @
          (if in_range (CHR ''1'') (CHR ''9'') a then [([a], b # r)] else []) @
          (if a = CHR '' '' \<and> in_range (CHR ''1'') (CHR ''9'') b then [([a, b], r)] else []))"

definition re_m :: "string \<Rightarrow> (string \<times> string) list" where
  "re_m s =
     (case s of
        [] \<Rightarrow> []
      | [a] \<Rightarrow> (if in_range (CHR ''1'') (CHR ''9'') a then [([a], [])] else [])
      | a # b # r \<Rightarrow>
          (if a = CHR ''1'' \<and> in_range (CHR ''0'') (CHR ''2'') b then [([a, b], r)] else []) @
          (if a = CHR ''0'' \<and> in_range (CHR ''1'') (CHR ''9'') b then [([a, b], r)] else []) @
          (if in_range (CHR ''1'') (CHR ''9'') a then [([a], b # r)] else []))"

definition re_Y :: "string \<Rightarrow> (string \<times> string) list" where
  "re_Y s =
     (case s of
        a # b # c # d # r \<Rightarrow>
          (if isdigit a \<and> isdigit b \<and> isdigit c \<and> isdigit d then [([a, b, c, d], r)] else [])
      | _ \<Rightarrow> [])"

definition re_slash :: "string \<Rightarrow> string list" where
  "re_slash s = (case s of [] \<Rightarrow> [] | a # r \<Rightarrow> (if a = CHR ''/'' then [r] else []))"

definition match_Y :: "string \<Rightarrow> string \<Rightarrow> string \<Rightarrow> ((string \<times> string \<times> string) \<times> string) list" where
  \<comment> \<open>the rest of the expression from the group Y on, the groups d and m already matched\<close>
  "match_Y d m s = map (\<lambda>(y, r). ((d, m, y), r)) (re_Y s)"

definition match_m :: "string \<Rightarrow> string \<Rightarrow> ((string \<times> string \<times> string) \<times> string) list" where
  \<comment> \<open>from the group m on: each match of m, the slash, then the rest\<close>
  "match_m d s = concat (map (\<lambda>(m, r). concat (map (match_Y d m) (re_slash r))) (re_m s))"

definition match_d :: "string \<Rightarrow> ((string \<times> string \<times> string) \<times> string) list" where
  \<comment> \<open>the whole expression: each match of d, the slash, then the rest\<close>
  "match_d s = concat (map (\<lambda>(d, r). concat (map (match_m d) (re_slash r))) (re_d s))"

definition format_regex_match :: "string \<Rightarrow> ((string \<times> string \<times> string) \<times> string) option" where
  \<comment> \<open>\<^verbatim>\<open>format_regex.match(data_string)\<close>: the groups d, m, Y and the input after the match\<close>
  "format_regex_match s = (case match_d s of [] \<Rightarrow> None | x # _ \<Rightarrow> Some x)"

definition strptime :: "string \<Rightarrow> datetime option" where
  \<comment> \<open>\<^verbatim>\<open>datetime.strptime(data_string, "%d/%m/%Y")\<close>; \<open>None\<close> is the \<^verbatim>\<open>ValueError\<close>\<close>
  "strptime data_string =
     (case format_regex_match data_string of
        None \<Rightarrow> None
      | Some ((d, m, y), rest) \<Rightarrow>
          if rest \<noteq> [] then None
          else let yy = int_str y; mm = int_str m; dd = int_str d in
            if yy < 1 \<or> 9999 < yy then None
            else if mm < 1 \<or> 12 < mm then None
            else if dd < 1 \<or> days_in_month yy mm < dd then None
            else Some \<lparr>year = yy, month = mm, day = dd,
                       hour = 0, minute = 0, second = 0, microsecond = 0\<rparr>)"

definition strftime :: "datetime \<Rightarrow> string" where
  \<comment> \<open>\<^verbatim>\<open>strftime("%Y-%m-%d")\<close>, the year written with four digits as the library documents it\<close>
  "strftime t = zfill 4 (str_nat (year t)) @ ''-'' @ zfill 2 (str_nat (month t)) @ ''-'' @
                zfill 2 (str_nat (day t))"

definition dt_key :: "datetime \<Rightarrow> nat list" where
  "dt_key t = [year t, month t, day t, hour t, minute t, second t, microsecond t]"

definition dt_less :: "datetime \<Rightarrow> datetime \<Rightarrow> bool" where
  \<comment> \<open>\<^verbatim>\<open><\<close> on two naive datetimes: the seven fields compared in order\<close>
  "dt_less a b = (dt_key a < dt_key b)"

definition validate_date :: "datetime \<Rightarrow> string \<Rightarrow> bool \<times> string" where
  "validate_date now date_str =
     (case strptime date_str of
        Some date_obj \<Rightarrow>
          (let today = now\<lparr>hour := 0, minute := 0, second := 0, microsecond := 0\<rparr> in
             if dt_less date_obj today
             then (False, ''Cannot add events to past dates. Please select today or a future date.'')
             else (True, strftime date_obj))
      | None \<Rightarrow> (False, ''Date must be in DD/MM/YYYY format''))"

subsection \<open>The events table and the statements run on it\<close>

record event =
  row_id :: nat
  title :: string
  date :: string
  location :: string
  "notes" :: string
  created_at :: string

datatype response = Json_event event | Json_error string nat

definition tolower :: "char \<Rightarrow> char" where
  \<comment> \<open>the ASCII case folding that LIKE applies to both sides\<close>
  "tolower c = (let n = (of_char c :: nat) in if 65 \<le> n \<and> n \<le> 90 then char_of (n + 32) else c)"

fun like :: "string \<Rightarrow> string \<Rightarrow> bool" where
  \<comment> \<open>\<^verbatim>\<open>text LIKE pattern\<close> of SQLite, first argument the pattern: \<^verbatim>\<open>%\<close> stands for any
      run of characters, \<^verbatim>\<open>_\<close> for any one character, the rest compares without ASCII case\<close>
  "like [] s = (s = [])"
| "like (p # ps) s =
     (if p = CHR ''%'' then like ps s \<or> (case s of [] \<Rightarrow> False | c # cs \<Rightarrow> like (p # ps) cs)
      else (case s of
              [] \<Rightarrow> False
            | c # cs \<Rightarrow> (p = CHR ''_'' \<or> tolower p = tolower c) \<and> like ps cs))"

definition select_order_by_date :: "event list \<Rightarrow> event list" where
  \<comment> \<open>\<^verbatim>\<open>ORDER BY date\<close> over a rowid scan: text compared code point by code point, rows of
      equal date left in scan order\<close>
  "select_order_by_date rows = sort_key date rows"

definition select_by_id :: "nat \<Rightarrow> event list \<Rightarrow> event option" where
  \<comment> \<open>\<^verbatim>\<open>SELECT * FROM events WHERE id = ?\<close> followed by \<^verbatim>\<open>fetchone()\<close>\<close>
  "select_by_id event_id db = find (\<lambda>e. row_id e = event_id) db"

definition set_field :: "string \<times> string \<Rightarrow> event \<Rightarrow> event" where
  "set_field fv e =
     (if fst fv = ''title'' then e\<lparr>title := snd fv\<rparr>
      else if fst fv = ''date'' then e\<lparr>date := snd fv\<rparr>
      else if fst fv = ''location'' then e\<lparr>location := snd fv\<rparr>
      else if fst fv = ''notes'' then e\<lparr>notes := snd fv\<rparr>
      else e)"

definition sql_update :: "(string \<times> string) list \<Rightarrow> nat \<Rightarrow> event list \<Rightarrow> event list" where
  \<comment> \<open>\<^verbatim>\<open>UPDATE events SET f1 = ?, ... WHERE id = ?\<close>\<close>
  "sql_update assignments event_id db =
     map (\<lambda>e. if row_id e = event_id then fold set_field assignments e else e) db"

subsection \<open>cleanup_past_events, get_events, update_event\<close>

definition cleanup_past_events :: "datetime \<Rightarrow> event list \<Rightarrow> event list" where
  \<comment> \<open>\<^verbatim>\<open>DELETE FROM events WHERE date < ?\<close> with today's text\<close>
  "cleanup_past_events now db = (let today = strftime now in filter (\<lambda>e. \<not> date e < today) db)"

definition get_events :: "datetime \<Rightarrow> string option \<Rightarrow> event list \<Rightarrow> event list \<times> event list" where
  \<comment> \<open>the rows sent back and the table left behind; \<open>month_arg\<close> is the query argument \<^verbatim>\<open>month\<close>\<close>
  "get_events now month_arg db =
     (let db1 = cleanup_past_events now db;
          rows = (case month_arg of
                    Some m \<Rightarrow>
                      if m \<noteq> []
                      then select_order_by_date (filter (\<lambda>e. like (m @ ''%'') (date e)) db1)
                      else select_order_by_date db1
                  | None \<Rightarrow> select_order_by_date db1)
      in (rows, db1))"

definition update_fields :: "(string \<rightharpoonup> string) \<Rightarrow> (string \<times> string) list" where
  \<comment> \<open>the loop over the four column names: an assignment for every one present in the body\<close>
  "update_fields data =
     concat (map (\<lambda>field. case data field of None \<Rightarrow> [] | Some v \<Rightarrow> [(field, v)])
                 [''title'', ''date'', ''location'', ''notes''])"

definition sqlite_integer_max :: nat where
  \<comment> \<open>the largest value of an SQLite INTEGER, \<open>2 ^ 63 - 1\<close>\<close>
  "sqlite_integer_max = 9223372036854775807"

definition update_event ::
  "datetime \<Rightarrow> nat \<Rightarrow> (string \<rightharpoonup> string) \<Rightarrow> event list \<Rightarrow> response \<times> event list" where
  \<comment> \<open>\<open>data\<close> is the JSON object of the request, its values strings; the response and the
      table left behind. The route takes any non-negative integer as \<open>event_id\<close>; binding
      one beyond \<open>sqlite_integer_max\<close> to the UPDATE raises \<^verbatim>\<open>OverflowError\<close> before
      anything is written, and the handler's \<^verbatim>\<open>except Exception\<close> answers 500 with the
      text of the exception. No other statement of the handler raises on a body whose
      values are strings.\<close>
  "update_event now event_id data db =
     (let (is_valid, error_msg) =
            (case data ''title'' of Some t \<Rightarrow> validate_title t | None \<Rightarrow> (True, ''''))
      in if \<not> is_valid then (Json_error error_msg 400, db)
      else
      let (is_valid, date_formatted) =
            (case data ''date'' of Some d \<Rightarrow> validate_date now d | None \<Rightarrow> (True, ''''))
      in if \<not> is_valid then (Json_error date_formatted 400, db)
      else
      let data1 = (case data ''date'' of Some d \<Rightarrow> data(''date'' \<mapsto> date_formatted) | None \<Rightarrow> data);
          (is_valid, error_msg) =
            (case data1 ''notes'' of
               Some n \<Rightarrow> if n \<noteq> [] then validate_notes n else (True, '''')
             | None \<Rightarrow> (True, ''''))
      in if \<not> is_valid then (Json_error error_msg 400, db)
      else
      let assignments = update_fields data1
      in if assignments = [] then (Json_error ''No fields to update'' 400, db)
      else if sqlite_integer_max < event_id
      then (Json_error ''Python int too large to convert to SQLite INTEGER'' 500, db)
      else
      let db' = sql_update assignments event_id db
      in (case select_by_id event_id db' of
            Some row \<Rightarrow> (Json_event row, db')
          | None \<Rightarrow> (Json_error ''Event not found'' 404, db')))"

subsection \<open>The specification's words, for comparison with the code\<close>

fun fields :: "string \<Rightarrow> string list" where
  \<comment> \<open>the input cut at every single whitespace character, empty pieces kept\<close>
  "fields [] = [[]]"
| "fields (c # cs) = (if isspace c then [] # fields cs else (c # hd (fields cs)) # tl (fields cs))"

definition token_count :: "string \<Rightarrow> nat" where
  \<comment> \<open>the number of non-empty tokens obtained by splitting on whitespace\<close>
  "token_count s = length (filter (\<lambda>w. w \<noteq> []) (fields s))"

definition real_date :: "nat \<Rightarrow> nat \<Rightarrow> nat \<Rightarrow> bool" where
  \<comment> \<open>year, month and day name a day of the calendar, years 1 to 9999\<close>
  "real_date y m d = (1 \<le> y \<and> y \<le> 9999 \<and> 1 \<le> m \<and> m \<le> 12 \<and> 1 \<le> d \<and> d \<le> days_in_month y m)"


definition digits_value :: "string \<Rightarrow> nat" where
  \<comment> \<open>the number a run of decimal digits writes\<close>
  "digits_value s = foldl (\<lambda>a c. 10 * a + (of_char c - 48)) 0 s"

definition date_fields :: "string \<Rightarrow> (string \<times> string \<times> string) option" where
  \<comment> \<open>a text read as day/month/year: the texts before the first slash, between the first
      and the second slash, and after the second slash\<close>
  "date_fields s =
     (case dropWhile (\<lambda>c. c \<noteq> CHR ''/'') s of
        [] \<Rightarrow> None
      | _ # r \<Rightarrow>
          (case dropWhile (\<lambda>c. c \<noteq> CHR ''/'') r of
             [] \<Rightarrow> None
           | _ # y \<Rightarrow> Some (takeWhile (\<lambda>c. c \<noteq> CHR ''/'') s, takeWhile (\<lambda>c. c \<noteq> CHR ''/'') r, y)))"

definition day_text :: "string \<Rightarrow> bool" where
  \<comment> \<open>one decimal digit, or two characters: a decimal digit or a space, then a decimal digit\<close>
  "day_text d = ((length d = 1 \<and> isdigit (d ! 0)) \<or>
                 (length d = 2 \<and> (isdigit (d ! 0) \<or> d ! 0 = CHR '' '') \<and> isdigit (d ! 1)))"

definition month_text :: "string \<Rightarrow> bool" where
  \<comment> \<open>one or two decimal digits\<close>
  "month_text m = ((length m = 1 \<or> length m = 2) \<and> list_all isdigit m)"

definition year_text :: "string \<Rightarrow> bool" where
  \<comment> \<open>exactly four decimal digits\<close>
  "year_text y = (length y = 4 \<and> list_all isdigit y)"

definition strict_ddmmyyyy :: "string \<Rightarrow> bool" where
  \<comment> \<open>day/month/year with exactly a two-digit day, exactly a two-digit month and exactly a
      four-digit year, naming a real calendar date\<close>
  "strict_ddmmyyyy s =
     (case date_fields s of
        None \<Rightarrow> False
      | Some (d, m, y) \<Rightarrow>
          length d = 2 \<and> list_all isdigit d \<and> length m = 2 \<and> list_all isdigit m \<and>
          length y = 4 \<and> list_all isdigit y \<and>
          real_date (digits_value y) (digits_value m) (digits_value d))"

definition lenient_dmyyyy :: "string \<Rightarrow> bool" where
  \<comment> \<open>day/month/year with a day of one or two digits (or a space and one digit), a month of
      one or two digits and a year of exactly four digits, naming a real calendar date\<close>
  "lenient_dmyyyy s =
     (case date_fields s of
        None \<Rightarrow> False
      | Some (d, m, y) \<Rightarrow>
          day_text d \<and> month_text m \<and> year_text y \<and>
          real_date (digits_value y) (digits_value m) (digits_value (filter isdigit d)))"



definition ascii_letter :: "char \<Rightarrow> bool" where
  "ascii_letter c = (let n = (of_char c :: nat) in (65 \<le> n \<and> n \<le> 90) \<or> (97 \<le> n \<and> n \<le> 122))"

definition plain_filter :: "string \<Rightarrow> bool" where
  \<comment> \<open>a text without the LIKE wildcards and without ASCII letters\<close>
  "plain_filter m = list_all (\<lambda>c. c \<noteq> CHR ''%'' \<and> c \<noteq> CHR ''_'' \<and> \<not> ascii_letter c) m"

definition yyyy_mm :: "string \<Rightarrow> bool" where
  \<comment> \<open>a month filter as the interface types it, YYYY-MM: four decimal digits, a hyphen,
      two decimal digits\<close>
  "yyyy_mm m = (length m = 7 \<and> list_all isdigit (take 4 m) \<and> m ! 4 = CHR ''-'' \<and>
                list_all isdigit (drop 5 m))"

definition filter_prefix :: "string option \<Rightarrow> string" where
  \<comment> \<open>the month prefix asked for; no filter asks for the empty prefix\<close>
  "filter_prefix month_arg = (case month_arg of None \<Rightarrow> [] | Some m \<Rightarrow> m)"

definition date_then_id :: "event \<Rightarrow> event \<Rightarrow> bool" where
  \<comment> \<open>ascending by date text, ties broken by id ascending\<close>
  "date_then_id a b = (date a < date b \<or> (date a = date b \<and> row_id a < row_id b))"

subsection \<open>Sample clocks and tables\<close>

definition clock_noon :: datetime where
  "clock_noon = \<lparr>year = 2025, month = 6, day = 15, hour = 13, minute = 45, second = 10, microsecond = 7\<rparr>"

definition clock_next_day :: datetime where
  "clock_next_day = \<lparr>year = 2025, month = 6, day = 16, hour = 0, minute = 0, second = 1, microsecond = 0\<rparr>"

definition clock_evening :: datetime where
  "clock_evening = \<lparr>year = 2025, month = 6, day = 15, hour = 23, minute = 59, second = 59, microsecond = 999999\<rparr>"

definition sample_event :: "nat \<Rightarrow> string \<Rightarrow> event" where
  "sample_event i d = \<lparr>row_id = i, title = ''Some title'', date = d, location = '''', notes = '''',
     created_at = ''2025-06-01 10:00:00''\<rparr>"

definition sample_db :: "event list" where
  "sample_db = [sample_event 1 ''2999-02-01'', sample_event 2 ''2025-06-14'', sample_event 3 ''2999-01-01'',
     sample_event 4 ''2025-06-15'', sample_event 5 ''2999-01-01'']"

section \<open>Properties\<close>

subsection \<open>strip and split\<close>

lemma fields_nonempty: "fields s \<noteq> []"
  by (induction s) auto

lemma split_Nil: "split [] = []"
  by (simp add: split.simps)

lemma split_space: "isspace c \<Longrightarrow> split (c # cs) = split cs"
  by (simp add: split.simps [of "c # cs"] split.simps [of cs])

lemma split_nonspace:
  "\<not> isspace c \<Longrightarrow>
   split (c # cs) = (c # takeWhile (\<lambda>x. \<not> isspace x) cs) # split (dropWhile (\<lambda>x. \<not> isspace x) cs)"
  by (simp add: split.simps [of "c # cs"])

lemma hd_fields: "hd (fields cs) = takeWhile (\<lambda>x. \<not> isspace x) cs"
  by (induction cs) auto

lemma tl_fields:
  "filter (\<lambda>w. w \<noteq> []) (tl (fields cs)) =
   filter (\<lambda>w. w \<noteq> []) (fields (dropWhile (\<lambda>x. \<not> isspace x) cs))"
  by (induction cs) auto

lemma split_fields: "split s = filter (\<lambda>w. w \<noteq> []) (fields s)"
proof (induction s rule: length_induct)
  case (1 s)
  show ?case
  proof (cases s)
    case Nil
    then show ?thesis by (simp add: split_Nil)
  next
    case (Cons c cs)
    show ?thesis
    proof (cases "isspace c")
      case True
      have "length cs < length s" using Cons by simp
      with 1 have "split cs = filter (\<lambda>w. w \<noteq> []) (fields cs)" by blast
      with True Cons show ?thesis by (simp add: split_space)
    next
      case False
      have "length (dropWhile (\<lambda>x. \<not> isspace x) cs) < length s"
        using Cons length_dropWhile_le [of "\<lambda>x. \<not> isspace x" cs] by simp
      with 1 have "split (dropWhile (\<lambda>x. \<not> isspace x) cs) =
          filter (\<lambda>w. w \<noteq> []) (fields (dropWhile (\<lambda>x. \<not> isspace x) cs))" by blast
      with False Cons show ?thesis
        by (simp add: split_nonspace hd_fields tl_fields)
    qed
  qed
qed

lemma fields_snoc_space: "isspace c \<Longrightarrow> fields (s @ [c]) = fields s @ [[]]"
  by (induction s) (auto simp: fields_nonempty)

lemma tokens_lstrip:
  "filter (\<lambda>w. w \<noteq> []) (fields (dropWhile isspace s)) = filter (\<lambda>w. w \<noteq> []) (fields s)"
  by (induction s) auto

lemma tokens_rstrip:
  "filter (\<lambda>w. w \<noteq> []) (fields (rev (dropWhile isspace (rev s)))) = filter (\<lambda>w. w \<noteq> []) (fields s)"
proof (induction s rule: rev_induct)
  case Nil
  then show ?case by simp
next
  case (snoc c s)
  then show ?case by (cases "isspace c") (simp_all add: fields_snoc_space)
qed

lemma tokens_strip:
  "filter (\<lambda>w. w \<noteq> []) (fields (strip s)) = filter (\<lambda>w. w \<noteq> []) (fields s)"
  unfolding strip_def by (simp add: tokens_rstrip tokens_lstrip)

lemma word_count_strip: "length (split (strip s)) = token_count s"
  by (simp add: split_fields tokens_strip token_count_def)

lemma fields_all_space: "list_all isspace s \<Longrightarrow> filter (\<lambda>w. w \<noteq> []) (fields s) = []"
  by (induction s) auto

lemma strip_decomp:
  "t = takeWhile isspace t @ strip t @ rev (takeWhile isspace (rev (dropWhile isspace t)))"
proof -
  let ?u = "dropWhile isspace t"
  have "rev (rev ?u) = rev (takeWhile isspace (rev ?u) @ dropWhile isspace (rev ?u))"
    by (simp only: takeWhile_dropWhile_id)
  then have "?u = strip t @ rev (takeWhile isspace (rev ?u))"
    by (simp only: rev_rev_ident rev_append strip_def)
  moreover have "t = takeWhile isspace t @ ?u" by simp
  ultimately show ?thesis by simp
qed

lemma last_dropWhile_aux: "dropWhile P xs \<noteq> [] \<Longrightarrow> last (dropWhile P xs) = last xs"
  by (induction xs) (auto split: if_splits)

lemma strip_ends:
  assumes "strip t \<noteq> []"
  shows "\<not> isspace (hd (strip t)) \<and> \<not> isspace (last (strip t))"
proof -
  let ?u = "dropWhile isspace t"
  let ?v = "dropWhile isspace (rev ?u)"
  from assms have v: "?v \<noteq> []" by (simp add: strip_def)
  have u: "?u \<noteq> []"
  proof
    assume e: "?u = []"
    have "?v = []" unfolding e by simp
    with v show False by simp
  qed
  have "last (strip t) = hd ?v" using v by (simp add: strip_def last_rev)
  moreover have "\<not> isspace (hd ?v)" using v by (rule hd_dropWhile)
  moreover have "hd (strip t) = last ?v" using v by (simp add: strip_def hd_rev)
  moreover have "last ?v = last (rev ?u)" using v by (rule last_dropWhile_aux)
  moreover have "last (rev ?u) = hd ?u" using u by (simp add: last_rev)
  moreover have "\<not> isspace (hd ?u)" using u by (rule hd_dropWhile)
  ultimately show ?thesis by simp
qed

subsection \<open>validate_notes\<close>

text \<open>
  Claim C7. For every notes string, \<open>validate_notes\<close> succeeds if and only if the number of
  non-empty tokens obtained by splitting on whitespace is at most 23; an empty or
  whitespace-only input is always valid. \<open>token_count\<close> counts the tokens from the
  specification's words (cut at every whitespace character, drop the empty pieces); the code
  counts \<open>length (split (strip s))\<close>.
\<close>

theorem validate_notes_iff:
  "(validate_notes s = (True, '''')) = (token_count s \<le> 23) \<and>
   (fst (validate_notes s)) = (token_count s \<le> 23) \<and>
   (list_all isspace s \<longrightarrow> validate_notes s = (True, ''''))"
proof -
  have a: "(validate_notes s = (True, '''')) = (token_count s \<le> 23)"
  proof (cases "s = [] \<or> strip s = []")
    case True
    then have "strip s = []" by (auto simp: strip_def)
    then have "length (split (strip s)) = 0" by (simp add: split_Nil)
    then have "token_count s = 0" by (simp add: word_count_strip)
    with True show ?thesis by (simp add: validate_notes_def)
  next
    case False
    then show ?thesis
      by (simp add: validate_notes_def Let_def word_count_strip)
  qed
  have b: "(fst (validate_notes s)) = (validate_notes s = (True, ''''))"
    by (simp add: validate_notes_def Let_def)
  have c: "list_all isspace s \<longrightarrow> token_count s \<le> 23"
    by (simp add: token_count_def fields_all_space)
  from a b c show ?thesis by blast
qed

theorem validate_notes_iff_witness:
  "validate_notes ''one two  three'' = (True, '''') \<and> token_count ''one two  three'' \<le> 23 \<and>
   list_all isspace [CHR '' '', CHR 0x09] \<and> validate_notes [CHR '' '', CHR 0x09] = (True, '''')"
proof -
  have h: "list_all isspace [CHR '' '', CHR 0x09]" by (simp add: isspace_def)
  have t: "token_count ''one two  three'' \<le> 23" by (simp add: token_count_def isspace_def)
  show ?thesis
    using h t validate_notes_iff [of "''one two  three''"] validate_notes_iff [of "[CHR '' '', CHR 0x09]"]
    by blast
qed

subsection \<open>validate_title\<close>

text \<open>
  Claim C8. For every title string, \<open>validate_title\<close> fails if and only if the title's
  whitespace-trimmed length is less than 5 or the title contains no alphabetic character,
  and succeeds for every other title. The trimmed title \<open>strip t\<close> is the title without
  the whitespace at its two ends: what is cut off is whitespace only, and what is left
  neither starts nor ends with whitespace.
\<close>

theorem validate_title_iff:
  "(\<exists>msg. validate_title t = (False, msg)) = (length (strip t) < 5 \<or> \<not> (\<exists>c \<in> set t. isalpha c)) \<and>
   (validate_title t = (True, '''')) = (\<not> (length (strip t) < 5 \<or> \<not> (\<exists>c \<in> set t. isalpha c))) \<and>
   (\<exists>a b. t = a @ strip t @ b \<and> list_all isspace a \<and> list_all isspace b) \<and>
   (strip t = [] \<or> (\<not> isspace (hd (strip t)) \<and> \<not> isspace (last (strip t))))"
proof -
  have 1: "(\<exists>msg. validate_title t = (False, msg)) = (length (strip t) < 5 \<or> \<not> (\<exists>c \<in> set t. isalpha c))"
    by (simp add: validate_title_def list_ex_iff)
  have 2: "(validate_title t = (True, '''')) = (\<not> (length (strip t) < 5 \<or> \<not> (\<exists>c \<in> set t. isalpha c)))"
    by (simp add: validate_title_def list_ex_iff)
  have "list_all isspace (takeWhile isspace t)"
    by (simp add: list_all_iff) (meson set_takeWhileD)
  moreover have "list_all isspace (rev (takeWhile isspace (rev (dropWhile isspace t))))"
    by (simp add: list_all_iff) (meson set_takeWhileD)
  ultimately have 3: "\<exists>a b. t = a @ strip t @ b \<and> list_all isspace a \<and> list_all isspace b"
    using strip_decomp [of t] by blast
  have 4: "strip t = [] \<or> (\<not> isspace (hd (strip t)) \<and> \<not> isspace (last (strip t)))"
    using strip_ends by blast
  from 1 2 3 4 show ?thesis by blast
qed

theorem validate_title_iff_witness:
  "validate_title ''  Team sync '' = (True, '''') \<and> length (strip ''  Team sync '') = 9 \<and>
   (\<exists>msg. validate_title ''12345'' = (False, msg)) \<and> (\<exists>msg. validate_title '' ab  '' = (False, msg))"
proof -
  have a: "length (strip ''  Team sync '') = 9" by (simp add: strip_def isspace_def)
  have b: "\<exists>c \<in> set ''  Team sync ''. isalpha c" by (simp add: isalpha_def)
  have c: "\<not> (\<exists>c \<in> set ''12345''. isalpha c)" by (simp add: isalpha_def)
  have d: "length (strip '' ab  '') < 5" by (simp add: strip_def isspace_def)
  show ?thesis
    using a b c d validate_title_iff [of "''  Team sync ''"] validate_title_iff [of "''12345''"]
      validate_title_iff [of "'' ab  ''"]
    by simp
qed

lemma strftime_same_day:
  "year a = year b \<Longrightarrow> month a = month b \<Longrightarrow> day a = day b \<Longrightarrow> strftime a = strftime b"
  by (simp add: strftime_def)

subsection \<open>cleanup_past_events\<close>

text \<open>
  Claim C4. For every table and every clock, after the clean-up no remaining event has a date
  text strictly less than today's text, every event whose date text is greater than or equal
  to it is kept (the clean-up keeps exactly those, in their order), and running the clean-up
  again with a clock of the same calendar day removes nothing more.
\<close>

theorem cleanup_past_events_spec:
  "(\<forall>e \<in> set (cleanup_past_events now db). \<not> date e < strftime now) \<and>
   (\<forall>e \<in> set db. strftime now \<le> date e \<longrightarrow> e \<in> set (cleanup_past_events now db)) \<and>
   cleanup_past_events now db = filter (\<lambda>e. strftime now \<le> date e) db \<and>
   cleanup_past_events now (cleanup_past_events now db) = cleanup_past_events now db \<and>
   (year now' = year now \<and> month now' = month now \<and> day now' = day now \<longrightarrow>
      cleanup_past_events now' (cleanup_past_events now db) = cleanup_past_events now db)"
proof -
  have k: "cleanup_past_events now db = filter (\<lambda>e. strftime now \<le> date e) db" for now db
    by (simp add: cleanup_past_events_def Let_def not_less)
  have c1: "\<forall>e \<in> set (cleanup_past_events now db). \<not> date e < strftime now"
    by (simp add: k not_less)
  have c2: "\<forall>e \<in> set db. strftime now \<le> date e \<longrightarrow> e \<in> set (cleanup_past_events now db)"
    by (simp add: k)
  have c4: "cleanup_past_events now (cleanup_past_events now db) = cleanup_past_events now db"
    by (simp add: k)
  have c5: "year now' = year now \<and> month now' = month now \<and> day now' = day now \<longrightarrow>
      cleanup_past_events now' (cleanup_past_events now db) = cleanup_past_events now db"
  proof
    assume h: "year now' = year now \<and> month now' = month now \<and> day now' = day now"
    have "strftime now' = strftime now" by (rule strftime_same_day) (simp_all add: h)
    then have e2: "cleanup_past_events now' (cleanup_past_events now db) =
        cleanup_past_events now (cleanup_past_events now db)"
      by (simp only: cleanup_past_events_def)
    show "cleanup_past_events now' (cleanup_past_events now db) = cleanup_past_events now db"
      by (simp only: e2 c4)
  qed
  show ?thesis
    by (rule conjI [OF c1 conjI [OF c2 conjI [OF k conjI [OF c4 c5]]]])
qed

theorem cleanup_past_events_spec_witness:
  "map row_id (cleanup_past_events clock_noon sample_db) = [1, 3, 4, 5] \<and>
   strftime clock_noon = ''2025-06-15'' \<and>
   sample_event 4 ''2025-06-15'' \<in> set (cleanup_past_events clock_noon sample_db) \<and>
   cleanup_past_events clock_evening (cleanup_past_events clock_noon sample_db) =
     cleanup_past_events clock_noon sample_db"
proof -
  note T = cleanup_past_events_spec [of clock_noon sample_db clock_evening]
  have a: "map row_id (cleanup_past_events clock_noon sample_db) = [1, 3, 4, 5]" by code_simp
  have b: "strftime clock_noon = ''2025-06-15''" by code_simp
  have c: "sample_event 4 ''2025-06-15'' \<in> set sample_db" by (simp add: sample_db_def)
  have d: "strftime clock_noon \<le> date (sample_event 4 ''2025-06-15'')"
    by (simp add: b sample_event_def)
  have e: "year clock_evening = year clock_noon \<and> month clock_evening = month clock_noon \<and>
      day clock_evening = day clock_noon" by (simp add: clock_evening_def clock_noon_def)
  from T have "\<forall>e \<in> set sample_db. strftime clock_noon \<le> date e \<longrightarrow>
      e \<in> set (cleanup_past_events clock_noon sample_db)"
    by (rule conjunct1 [OF conjunct2])
  from this c have "strftime clock_noon \<le> date (sample_event 4 ''2025-06-15'') \<longrightarrow>
      sample_event 4 ''2025-06-15'' \<in> set (cleanup_past_events clock_noon sample_db)"
    by (rule bspec)
  from this d have m: "sample_event 4 ''2025-06-15'' \<in> set (cleanup_past_events clock_noon sample_db)"
    by (rule mp)
  from T have "year clock_evening = year clock_noon \<and> month clock_evening = month clock_noon \<and>
      day clock_evening = day clock_noon \<longrightarrow>
      cleanup_past_events clock_evening (cleanup_past_events clock_noon sample_db) =
      cleanup_past_events clock_noon sample_db"
    by (rule conjunct2 [OF conjunct2 [OF conjunct2 [OF conjunct2]]])
  from this e have i: "cleanup_past_events clock_evening (cleanup_past_events clock_noon sample_db) =
      cleanup_past_events clock_noon sample_db"
    by (rule mp)
  show ?thesis by (rule conjI [OF a conjI [OF b conjI [OF m i]]])
qed

subsection \<open>update_event\<close>

lemma update_event_cases:
  assumes "vt = (case data ''title'' of Some t \<Rightarrow> validate_title t | None \<Rightarrow> (True, ''''))"
      and "vd = (case data ''date'' of Some d \<Rightarrow> validate_date now d | None \<Rightarrow> (True, ''''))"
      and "data1 = (case data ''date'' of Some d \<Rightarrow> data(''date'' \<mapsto> snd vd) | None \<Rightarrow> data)"
      and "vn = (case data1 ''notes'' of
                   Some n \<Rightarrow> if n \<noteq> [] then validate_notes n else (True, '''')
                 | None \<Rightarrow> (True, ''''))"
      and "db' = sql_update (update_fields data1) event_id db"
  shows "update_event now event_id data db =
     (if \<not> fst vt then (Json_error (snd vt) 400, db)
      else if \<not> fst vd then (Json_error (snd vd) 400, db)
      else if \<not> fst vn then (Json_error (snd vn) 400, db)
      else if update_fields data1 = [] then (Json_error ''No fields to update'' 400, db)
      else if sqlite_integer_max < event_id
      then (Json_error ''Python int too large to convert to SQLite INTEGER'' 500, db)
      else (case select_by_id event_id db' of
              Some row \<Rightarrow> (Json_event row, db')
            | None \<Rightarrow> (Json_error ''Event not found'' 404, db')))"
  unfolding assms update_event_def by (simp add: Let_def case_prod_beta)

lemmas update_event_unfold = update_event_cases [OF refl refl refl refl refl]

lemma update_event_title_fail:
  assumes "data ''title'' = Some t" and "\<not> fst (validate_title t)"
  shows "update_event now event_id data db = (Json_error (snd (validate_title t)) 400, db)"
  using assms by (simp add: update_event_unfold)

lemma update_event_date_fail:
  assumes "\<forall>t. data ''title'' = Some t \<longrightarrow> fst (validate_title t)"
    and "data ''date'' = Some d" and "\<not> fst (validate_date now d)"
  shows "update_event now event_id data db = (Json_error (snd (validate_date now d)) 400, db)"
proof (cases "data ''title''")
  case None
  with assms(2,3) show ?thesis by (simp add: update_event_unfold)
next
  case (Some t)
  with assms(1) have "fst (validate_title t)" by simp
  with Some assms(2,3) show ?thesis by (simp add: update_event_unfold)
qed

lemma validate_notes_empty: "fst (validate_notes [])"
  by (simp add: validate_notes_def)

lemma update_event_notes_fail:
  assumes "\<forall>t. data ''title'' = Some t \<longrightarrow> fst (validate_title t)"
    and "\<forall>d. data ''date'' = Some d \<longrightarrow> fst (validate_date now d)"
    and "data ''notes'' = Some n" and "\<not> fst (validate_notes n)"
  shows "update_event now event_id data db = (Json_error (snd (validate_notes n)) 400, db)"
proof -
  from assms(4) have n: "n \<noteq> []" using validate_notes_empty by auto
  have t: "fst (case data ''title'' of Some t \<Rightarrow> validate_title t | None \<Rightarrow> (True, ''''))"
    using assms(1) by (cases "data ''title''") simp_all
  have d: "fst (case data ''date'' of Some d \<Rightarrow> validate_date now d | None \<Rightarrow> (True, ''''))"
    using assms(2) by (cases "data ''date''") simp_all
  have m: "(case data ''date'' of Some d \<Rightarrow> data(''date'' \<mapsto> x) | None \<Rightarrow> data) ''notes'' = Some n" for x
    using assms(3) by (cases "data ''date''") simp_all
  show ?thesis
    by (simp add: update_event_unfold t d m n assms(4))
qed

text \<open>
  Claim C5. For every event id and every update body, if the validation of a present field
  fails, \<open>update_event\<close> returns that validation error (status 400, the message of the
  first validator that fails in the order title, date, notes) and the table is left exactly
  as it was: nothing is written. In particular a body whose notes are 24 words is refused
  with the notes message and the table unchanged.
\<close>

theorem update_event_no_partial_write:
  "(data ''title'' = Some t \<and> \<not> fst (validate_title t) \<longrightarrow>
      update_event now event_id data db = (Json_error (snd (validate_title t)) 400, db)) \<and>
   ((\<forall>t. data ''title'' = Some t \<longrightarrow> fst (validate_title t)) \<and>
    data ''date'' = Some d \<and> \<not> fst (validate_date now d) \<longrightarrow>
      update_event now event_id data db = (Json_error (snd (validate_date now d)) 400, db)) \<and>
   ((\<forall>t. data ''title'' = Some t \<longrightarrow> fst (validate_title t)) \<and>
    (\<forall>d. data ''date'' = Some d \<longrightarrow> fst (validate_date now d)) \<and>
    data ''notes'' = Some n \<and> \<not> fst (validate_notes n) \<longrightarrow>
      update_event now event_id data db = (Json_error (snd (validate_notes n)) 400, db)) \<and>
   update_event now event_id [''notes'' \<mapsto> concat (replicate 24 ''word '')] db =
     (Json_error ''Notes must be maximum 23 words (currently 24)'' 400, db)"
proof -
  have v: "validate_notes (concat (replicate 24 ''word '')) =
      (False, ''Notes must be maximum 23 words (currently 24)'')" by code_simp
  have "update_event now event_id [''notes'' \<mapsto> concat (replicate 24 ''word '')] db =
     (Json_error (snd (validate_notes (concat (replicate 24 ''word '')))) 400, db)"
    by (rule update_event_notes_fail) (simp_all add: v)
  then have 4: "update_event now event_id [''notes'' \<mapsto> concat (replicate 24 ''word '')] db =
     (Json_error ''Notes must be maximum 23 words (currently 24)'' 400, db)"
    by (simp only: v snd_conv)
  have 1: "data ''title'' = Some t \<and> \<not> fst (validate_title t) \<longrightarrow>
      update_event now event_id data db = (Json_error (snd (validate_title t)) 400, db)"
    using update_event_title_fail [of data t now event_id db] by (rule_tac impI) (erule conjE)
  have 2: "(\<forall>t. data ''title'' = Some t \<longrightarrow> fst (validate_title t)) \<and>
    data ''date'' = Some d \<and> \<not> fst (validate_date now d) \<longrightarrow>
      update_event now event_id data db = (Json_error (snd (validate_date now d)) 400, db)"
  proof
    assume h: "(\<forall>t. data ''title'' = Some t \<longrightarrow> fst (validate_title t)) \<and>
      data ''date'' = Some d \<and> \<not> fst (validate_date now d)"
    show "update_event now event_id data db = (Json_error (snd (validate_date now d)) 400, db)"
      by (rule update_event_date_fail) (simp_all add: h)
  qed
  have 3: "(\<forall>t. data ''title'' = Some t \<longrightarrow> fst (validate_title t)) \<and>
    (\<forall>d. data ''date'' = Some d \<longrightarrow> fst (validate_date now d)) \<and>
    data ''notes'' = Some n \<and> \<not> fst (validate_notes n) \<longrightarrow>
      update_event now event_id data db = (Json_error (snd (validate_notes n)) 400, db)"
  proof
    assume h: "(\<forall>t. data ''title'' = Some t \<longrightarrow> fst (validate_title t)) \<and>
      (\<forall>d. data ''date'' = Some d \<longrightarrow> fst (validate_date now d)) \<and>
      data ''notes'' = Some n \<and> \<not> fst (validate_notes n)"
    show "update_event now event_id data db = (Json_error (snd (validate_notes n)) 400, db)"
      by (rule update_event_notes_fail) (simp_all add: h)
  qed
  show ?thesis by (rule conjI [OF 1 conjI [OF 2 conjI [OF 3 4]]])
qed

theorem update_event_no_partial_write_witness:
  "update_event clock_noon 3 [''title'' \<mapsto> ''abc''] sample_db =
     (Json_error ''Title must be at least 5 characters long'' 400, sample_db) \<and>
   update_event clock_noon 3 [''date'' \<mapsto> ''14/06/2025''] sample_db =
     (Json_error ''Cannot add events to past dates. Please select today or a future date.'' 400, sample_db) \<and>
   update_event clock_noon 3 [''title'' \<mapsto> ''Team sync'', ''notes'' \<mapsto> concat (replicate 24 ''word '')] sample_db =
     (Json_error ''Notes must be maximum 23 words (currently 24)'' 400, sample_db)"
proof -
  have vt: "validate_title ''abc'' = (False, ''Title must be at least 5 characters long'')"
    by (simp add: validate_title_def strip_def isspace_def)
  have vt2: "validate_title ''Team sync'' = (True, '''')"
    by (simp add: validate_title_def strip_def isspace_def isalpha_def)
  have vd: "validate_date clock_noon ''14/06/2025'' =
      (False, ''Cannot add events to past dates. Please select today or a future date.'')"
    by code_simp
  have vn: "validate_notes (concat (replicate 24 ''word '')) =
      (False, ''Notes must be maximum 23 words (currently 24)'')" by code_simp
  have h1: "[''title'' \<mapsto> ''abc''] ''title'' = Some ''abc'' \<and> \<not> fst (validate_title ''abc'')"
    by (simp add: vt)
  have "[''title'' \<mapsto> ''abc''] ''title'' = Some ''abc'' \<and> \<not> fst (validate_title ''abc'') \<longrightarrow>
      update_event clock_noon 3 [''title'' \<mapsto> ''abc''] sample_db =
      (Json_error (snd (validate_title ''abc'')) 400, sample_db)"
    using update_event_no_partial_write
      [where data = "[''title'' \<mapsto> ''abc'']" and t = "''abc''" and now = clock_noon
         and event_id = 3 and db = sample_db]
    by (rule conjunct1)
  from this h1 have "update_event clock_noon 3 [''title'' \<mapsto> ''abc''] sample_db =
      (Json_error (snd (validate_title ''abc'')) 400, sample_db)" by (rule mp)
  then have r1: "update_event clock_noon 3 [''title'' \<mapsto> ''abc''] sample_db =
     (Json_error ''Title must be at least 5 characters long'' 400, sample_db)"
    by (simp only: vt snd_conv)
  have h2: "(\<forall>t. [''date'' \<mapsto> ''14/06/2025''] ''title'' = Some t \<longrightarrow> fst (validate_title t)) \<and>
      [''date'' \<mapsto> ''14/06/2025''] ''date'' = Some ''14/06/2025'' \<and>
      \<not> fst (validate_date clock_noon ''14/06/2025'')"
    by (simp add: vd)
  have "(\<forall>t. [''date'' \<mapsto> ''14/06/2025''] ''title'' = Some t \<longrightarrow> fst (validate_title t)) \<and>
      [''date'' \<mapsto> ''14/06/2025''] ''date'' = Some ''14/06/2025'' \<and>
      \<not> fst (validate_date clock_noon ''14/06/2025'') \<longrightarrow>
      update_event clock_noon 3 [''date'' \<mapsto> ''14/06/2025''] sample_db =
      (Json_error (snd (validate_date clock_noon ''14/06/2025'')) 400, sample_db)"
    using update_event_no_partial_write
      [where data = "[''date'' \<mapsto> ''14/06/2025'']" and d = "''14/06/2025''" and now = clock_noon
         and event_id = 3 and db = sample_db]
    by (rule conjunct1 [OF conjunct2])
  from this h2 have "update_event clock_noon 3 [''date'' \<mapsto> ''14/06/2025''] sample_db =
      (Json_error (snd (validate_date clock_noon ''14/06/2025'')) 400, sample_db)" by (rule mp)
  then have r2: "update_event clock_noon 3 [''date'' \<mapsto> ''14/06/2025''] sample_db =
     (Json_error ''Cannot add events to past dates. Please select today or a future date.'' 400, sample_db)"
    by (simp only: vd snd_conv)
  let ?w = "concat (replicate 24 ''word '')"
  let ?m = "[''title'' \<mapsto> ''Team sync'', ''notes'' \<mapsto> ?w]"
  have h3: "(\<forall>t. ?m ''title'' = Some t \<longrightarrow> fst (validate_title t)) \<and>
      (\<forall>d. ?m ''date'' = Some d \<longrightarrow> fst (validate_date clock_noon d)) \<and>
      ?m ''notes'' = Some ?w \<and> \<not> fst (validate_notes ?w)"
    by (simp add: vn vt2)
  have "(\<forall>t. ?m ''title'' = Some t \<longrightarrow> fst (validate_title t)) \<and>
      (\<forall>d. ?m ''date'' = Some d \<longrightarrow> fst (validate_date clock_noon d)) \<and>
      ?m ''notes'' = Some ?w \<and> \<not> fst (validate_notes ?w) \<longrightarrow>
      update_event clock_noon 3 ?m sample_db = (Json_error (snd (validate_notes ?w)) 400, sample_db)"
    using update_event_no_partial_write
      [where data = ?m and n = ?w and now = clock_noon and event_id = 3 and db = sample_db]
    by (rule conjunct1 [OF conjunct2 [OF conjunct2]])
  from this h3 have "update_event clock_noon 3 ?m sample_db =
      (Json_error (snd (validate_notes ?w)) 400, sample_db)" by (rule mp)
  then have r3: "update_event clock_noon 3 ?m sample_db =
     (Json_error ''Notes must be maximum 23 words (currently 24)'' 400, sample_db)"
    by (simp only: vn snd_conv)
  show ?thesis by (rule conjI [OF r1 conjI [OF r2 r3]])
qed









lemma set_field_keeps:
  "row_id (set_field fv e) = row_id e \<and> created_at (set_field fv e) = created_at e"
  by (simp add: set_field_def)

lemma fold_set_field_keeps:
  "row_id (fold set_field a e) = row_id e \<and> created_at (fold set_field a e) = created_at e"
  by (induction a arbitrary: e) (simp_all add: set_field_keeps)

lemma sql_update_row_id: "map row_id (sql_update a i db) = map row_id db"
  by (simp add: sql_update_def fold_set_field_keeps)

lemma sql_update_created_at: "map created_at (sql_update a i db) = map created_at db"
  by (simp add: sql_update_def fold_set_field_keeps)

lemma sql_update_other: "k < length db \<Longrightarrow> row_id (db ! k) \<noteq> i \<Longrightarrow> sql_update a i db ! k = db ! k"
  by (simp add: sql_update_def)

lemma snd_update_event:
  "snd (update_event now i data db) = db \<or> (\<exists>a. snd (update_event now i data db) = sql_update a i db)"
proof -
  define vt where "vt = (case data ''title'' of Some t \<Rightarrow> validate_title t | None \<Rightarrow> (True, []))"
  define vd where "vd = (case data ''date'' of Some d \<Rightarrow> validate_date now d | None \<Rightarrow> (True, []))"
  define data1 where
    "data1 = (case data ''date'' of Some d \<Rightarrow> data(''date'' \<mapsto> snd vd) | None \<Rightarrow> data)"
  define vn where "vn = (case data1 ''notes'' of
      Some n \<Rightarrow> if n \<noteq> [] then validate_notes n else (True, []) | None \<Rightarrow> (True, []))"
  define db' where "db' = sql_update (update_fields data1) i db"
  note E = update_event_cases [OF vt_def vd_def data1_def vn_def db'_def]
  have "snd (update_event now i data db) = db \<or> snd (update_event now i data db) = db'"
    unfolding E by (cases "select_by_id i db'") simp_all
  then show ?thesis unfolding db'_def by blast
qed

lemma update_fields_cong:
  assumes "d1 ''title'' = d2 ''title''" and "d1 ''date'' = d2 ''date''"
    and "d1 ''location'' = d2 ''location''" and "d1 ''notes'' = d2 ''notes''"
  shows "update_fields d1 = update_fields d2"
  by (simp add: update_fields_def assms)

lemma update_event_cong:
  assumes "d1 ''title'' = d2 ''title''" and "d1 ''date'' = d2 ''date''"
    and "d1 ''location'' = d2 ''location''" and "d1 ''notes'' = d2 ''notes''"
  shows "update_event now i d1 db = update_event now i d2 db"
proof -
  define vt where "vt = (case d2 ''title'' of Some t \<Rightarrow> validate_title t | None \<Rightarrow> (True, []))"
  define vd where "vd = (case d2 ''date'' of Some d \<Rightarrow> validate_date now d | None \<Rightarrow> (True, []))"
  define e1 where "e1 = (case d2 ''date'' of Some d \<Rightarrow> d1(''date'' \<mapsto> snd vd) | None \<Rightarrow> d1)"
  define e2 where "e2 = (case d2 ''date'' of Some d \<Rightarrow> d2(''date'' \<mapsto> snd vd) | None \<Rightarrow> d2)"
  have n: "e1 ''notes'' = e2 ''notes''"
    unfolding e1_def e2_def using assms(4) by (cases "d2 ''date''") simp_all
  have f: "update_fields e1 = update_fields e2"
    unfolding e1_def e2_def
    by (rule update_fields_cong) (use assms in \<open>cases "d2 ''date''"; simp\<close>)+
  define vn where "vn = (case e2 ''notes'' of
      Some n \<Rightarrow> if n \<noteq> [] then validate_notes n else (True, []) | None \<Rightarrow> (True, []))"
  define db' where "db' = sql_update (update_fields e2) i db"
  have a1: "vt = (case d1 ''title'' of Some t \<Rightarrow> validate_title t | None \<Rightarrow> (True, []))"
    by (simp only: vt_def assms(1))
  have a2: "vd = (case d1 ''date'' of Some d \<Rightarrow> validate_date now d | None \<Rightarrow> (True, []))"
    by (simp only: vd_def assms(2))
  have a3: "e1 = (case d1 ''date'' of Some d \<Rightarrow> d1(''date'' \<mapsto> snd vd) | None \<Rightarrow> d1)"
    by (simp only: e1_def assms(2))
  have a4: "vn = (case e1 ''notes'' of
      Some n \<Rightarrow> if n \<noteq> [] then validate_notes n else (True, []) | None \<Rightarrow> (True, []))"
    by (simp only: vn_def n)
  have a5: "db' = sql_update (update_fields e1) i db"
    by (simp only: db'_def f)
  note L = update_event_cases [OF a1 a2 a3 a4 a5]
  note R = update_event_cases [OF vt_def vd_def e2_def vn_def db'_def]
  show ?thesis by (simp only: L R f)
qed

text \<open>
  Claim C10. For every event id and every update body, \<open>update_event\<close> can change only the
  columns title, date, location and notes of the row with that id: the ids and the creation
  timestamps of the table stay as they were, every row with another id is unchanged, and
  any key of the body outside the four column names is ignored (the response and the table
  are those of the body restricted to the four names).
\<close>

theorem update_event_frame:
  "map row_id (snd (update_event now event_id data db)) = map row_id db \<and>
   map created_at (snd (update_event now event_id data db)) = map created_at db \<and>
   (\<forall>k < length db. row_id (db ! k) \<noteq> event_id \<longrightarrow>
      snd (update_event now event_id data db) ! k = db ! k) \<and>
   update_event now event_id (data |` {''title'', ''date'', ''location'', ''notes''}) db =
     update_event now event_id data db"
proof -
  let ?db' = "snd (update_event now event_id data db)"
  from snd_update_event [of now event_id data db]
  have s: "?db' = db \<or> (\<exists>a. ?db' = sql_update a event_id db)" .
  have 1: "map row_id ?db' = map row_id db"
    using s by (auto simp: sql_update_row_id)
  have 2: "map created_at ?db' = map created_at db"
    using s by (auto simp: sql_update_created_at)
  have 3: "\<forall>k < length db. row_id (db ! k) \<noteq> event_id \<longrightarrow> ?db' ! k = db ! k"
    using s by (auto simp: sql_update_other)
  have 4: "update_event now event_id (data |` {''title'', ''date'', ''location'', ''notes''}) db =
     update_event now event_id data db"
    by (rule update_event_cong) (simp_all add: restrict_map_def)
  show ?thesis by (rule conjI [OF 1 conjI [OF 2 conjI [OF 3 4]]])
qed

theorem update_event_frame_witness:
  "fst (update_event clock_noon 3 [''title'' \<mapsto> ''New title'', ''id'' \<mapsto> ''7'', ''created_at'' \<mapsto> ''x''] sample_db) =
     Json_event ((sample_event 3 ''2999-01-01'')\<lparr>title := ''New title''\<rparr>) \<and>
   (0::nat) < length sample_db \<and> row_id (sample_db ! 0) \<noteq> 3 \<and>
   snd (update_event clock_noon 3 [''title'' \<mapsto> ''New title'', ''id'' \<mapsto> ''7'', ''created_at'' \<mapsto> ''x''] sample_db) ! 0 =
     sample_db ! 0 \<and>
   map row_id (snd (update_event clock_noon 3 [''title'' \<mapsto> ''New title'', ''id'' \<mapsto> ''7'', ''created_at'' \<mapsto> ''x''] sample_db)) =
     [1, 2, 3, 4, 5]"
proof -
  let ?m = "[''title'' \<mapsto> ''New title'', ''id'' \<mapsto> ''7'', ''created_at'' \<mapsto> ''x'']"
  note T = update_event_frame [where now = clock_noon and event_id = 3 and data = ?m and db = sample_db]
  have vt: "validate_title ''New title'' = (True, [])"
    by (simp add: validate_title_def strip_def isspace_def isalpha_def)
  have a: "fst (update_event clock_noon 3 ?m sample_db) =
     Json_event ((sample_event 3 ''2999-01-01'')\<lparr>title := ''New title''\<rparr>)"
    by (simp add: update_event_unfold update_fields_def vt sqlite_integer_max_def
          select_by_id_def sql_update_def sample_db_def sample_event_def set_field_def)
  have b: "(0::nat) < length sample_db" by (simp add: sample_db_def)
  have c: "row_id (sample_db ! 0) \<noteq> 3" by (simp add: sample_db_def sample_event_def)
  from T have "\<forall>k < length sample_db. row_id (sample_db ! k) \<noteq> 3 \<longrightarrow>
      snd (update_event clock_noon 3 ?m sample_db) ! k = sample_db ! k"
    by (rule conjunct1 [OF conjunct2 [OF conjunct2]])
  then have "0 < length sample_db \<longrightarrow> row_id (sample_db ! 0) \<noteq> 3 \<longrightarrow>
      snd (update_event clock_noon 3 ?m sample_db) ! 0 = sample_db ! 0"
    by (rule spec)
  from this b have "row_id (sample_db ! 0) \<noteq> 3 \<longrightarrow>
      snd (update_event clock_noon 3 ?m sample_db) ! 0 = sample_db ! 0"
    by (rule mp)
  from this c have d: "snd (update_event clock_noon 3 ?m sample_db) ! 0 = sample_db ! 0"
    by (rule mp)
  from T have "map row_id (snd (update_event clock_noon 3 ?m sample_db)) = map row_id sample_db"
    by (rule conjunct1)
  then have e: "map row_id (snd (update_event clock_noon 3 ?m sample_db)) = [1, 2, 3, 4, 5]"
    by (simp add: sample_db_def sample_event_def)
  show ?thesis by (rule conjI [OF a conjI [OF b conjI [OF c conjI [OF d e]]]])
qed

subsection \<open>validate_date\<close>



















subsection \<open>The clock read by validate_date\<close>

lemma validate_date_same_day:
  assumes "year a = year b" and "month a = month b" and "day a = day b"
  shows "validate_date a s = validate_date b s"
  by (cases "strptime s") (simp_all add: validate_date_def dt_less_def dt_key_def assms)

text \<open>
  Claim C9, as amended. \<open>validate_title\<close> and \<open>validate_notes\<close> are functions of their
  argument alone. \<open>validate_date\<close> takes the input string only and reads the wall clock
  itself; its result is determined by the input string and the calendar day of that clock:
  two calls with the same string under clocks of the same calendar day return identical
  results, whatever the time of day.
\<close>

theorem validate_date_depends_on_day_only:
  "year a = year b \<and> month a = month b \<and> day a = day b \<longrightarrow> validate_date a s = validate_date b s"
proof
  assume h: "year a = year b \<and> month a = month b \<and> day a = day b"
  show "validate_date a s = validate_date b s"
    by (rule validate_date_same_day) (simp_all add: h)
qed

theorem validate_date_depends_on_day_only_witness:
  "year clock_noon = year clock_evening \<and> month clock_noon = month clock_evening \<and>
   day clock_noon = day clock_evening \<and> clock_noon \<noteq> clock_evening \<and>
   validate_date clock_noon ''15/06/2025'' = validate_date clock_evening ''15/06/2025''"
proof -
  have h: "year clock_noon = year clock_evening \<and> month clock_noon = month clock_evening \<and>
      day clock_noon = day clock_evening"
    by (simp add: clock_noon_def clock_evening_def)
  have n: "clock_noon \<noteq> clock_evening"
    by (simp add: clock_noon_def clock_evening_def)
  from validate_date_depends_on_day_only [of clock_noon clock_evening "''15/06/2025''"] h
  have e: "validate_date clock_noon ''15/06/2025'' = validate_date clock_evening ''15/06/2025''"
    by (rule mp)
  from h n e show ?thesis by simp
qed

theorem validate_date_reads_clock_counterexample:
  "validate_date clock_noon ''15/06/2025'' = (True, ''2025-06-15'') \<and>
   validate_date clock_next_day ''15/06/2025'' =
     (False, ''Cannot add events to past dates. Please select today or a future date.'') \<and>
   validate_date clock_noon ''15/06/2025'' \<noteq> validate_date clock_next_day ''15/06/2025''"
proof -
  have a: "validate_date clock_noon ''15/06/2025'' = (True, ''2025-06-15'')" by code_simp
  have b: "validate_date clock_next_day ''15/06/2025'' =
     (False, ''Cannot add events to past dates. Please select today or a future date.'')"
    by code_simp
  have c: "validate_date clock_noon ''15/06/2025'' \<noteq> validate_date clock_next_day ''15/06/2025''"
    unfolding a b by simp
  show ?thesis by (rule conjI [OF a conjI [OF b c]])
qed

subsection \<open>get_events\<close>

lemma like_percent: "like ''%'' s"
  by (induction s) simp_all

lemma tolower_plain:
  assumes "\<not> ascii_letter p"
  shows "(tolower p = tolower c) = (p = c)"
proof -
  have p: "tolower p = p"
    using assms by (auto simp: tolower_def ascii_letter_def Let_def)
  show ?thesis
  proof (cases "65 \<le> (of_char c :: nat) \<and> (of_char c :: nat) \<le> 90")
    case False
    then have "tolower c = c" by (auto simp: tolower_def Let_def)
    with p show ?thesis by simp
  next
    case True
    then have c: "tolower c = char_of ((of_char c :: nat) + 32)"
      by (simp add: tolower_def Let_def)
    have "(of_char (char_of ((of_char c :: nat) + 32)) :: nat) = of_char c + 32"
      using True by simp
    then have "ascii_letter (tolower c)"
      using True by (simp add: c ascii_letter_def Let_def)
    moreover have "ascii_letter c"
      using True by (simp add: ascii_letter_def Let_def)
    ultimately show ?thesis using assms p by auto
  qed
qed

lemma like_plain_prefix: "plain_filter m \<Longrightarrow> like (m @ ''%'') s = prefix m s"
proof (induction m arbitrary: s)
  case Nil
  then show ?case using like_percent by simp
next
  case (Cons p ps)
  then have ps: "plain_filter ps" and p: "p \<noteq> CHR ''%''" "p \<noteq> CHR ''_''" "\<not> ascii_letter p"
    by (simp_all add: plain_filter_def)
  show ?case
  proof (cases s)
    case Nil
    with p show ?thesis by simp
  next
    case (Cons c cs)
    with p Cons.IH [OF ps, of cs] tolower_plain [OF p(3), of c] show ?thesis by simp
  qed
qed

lemma insort_date_then_id:
  "sorted_wrt date_then_id ys \<Longrightarrow> \<forall>y \<in> set ys. row_id x < row_id y \<Longrightarrow>
   sorted_wrt date_then_id (insort_key date x ys)"
proof (induction ys)
  case Nil
  then show ?case by simp
next
  case (Cons y ys)
  show ?case
  proof (cases "date x \<le> date y")
    case True
    have "date_then_id x z" if "z \<in> set (y # ys)" for z
    proof -
      have "date y \<le> date z"
        using that Cons.prems(1) by (auto simp: date_then_id_def)
      with True have "date x \<le> date z" by simp
      moreover have "row_id x < row_id z" using that Cons.prems(2) by auto
      ultimately show ?thesis by (auto simp: date_then_id_def)
    qed
    with True Cons.prems(1) show ?thesis by simp
  next
    case False
    then have "date y < date x" by (simp only: not_le)
    then have "date_then_id y x" by (simp add: date_then_id_def)
    moreover have "sorted_wrt date_then_id (insort_key date x ys)"
      using Cons by simp
    ultimately show ?thesis
      using False Cons.prems(1) by (auto simp: set_insort_key)
  qed
qed

lemma sort_date_then_id:
  "sorted_wrt (\<lambda>a b. row_id a < row_id b) xs \<Longrightarrow> sorted_wrt date_then_id (sort_key date xs)"
proof (induction xs)
  case Nil
  then show ?case by simp
next
  case (Cons x xs)
  then have "sorted_wrt date_then_id (sort_key date xs)" by simp
  moreover have "\<forall>y \<in> set (sort_key date xs). row_id x < row_id y"
    using Cons.prems by simp
  ultimately show ?case by (simp add: insort_date_then_id)
qed

lemma distinct_ids: "sorted_wrt (\<lambda>a b. row_id a < row_id b) xs \<Longrightarrow> distinct xs"
  by (induction xs) auto

lemma get_events_rows:
  assumes "case month_arg of None \<Rightarrow> True | Some m \<Rightarrow> plain_filter m"
  shows "fst (get_events now month_arg db) =
    sort_key date (filter (\<lambda>e. prefix (filter_prefix month_arg) (date e)) (cleanup_past_events now db))"
proof (cases month_arg)
  case None
  then show ?thesis
    by (simp add: get_events_def select_order_by_date_def filter_prefix_def Let_def)
next
  case (Some m)
  with assms have "plain_filter m" by simp
  then have "like (m @ ''%'') s = prefix m s" for s by (rule like_plain_prefix)
  with Some show ?thesis
    by (simp add: get_events_def select_order_by_date_def filter_prefix_def Let_def)
qed

lemma cleanup_not_past: "\<forall>e \<in> set (cleanup_past_events now db). \<not> date e < strftime now"
  by (simp add: cleanup_past_events_def Let_def)

lemma cleanup_sorted_ids:
  "sorted_wrt (\<lambda>a b. row_id a < row_id b) db \<Longrightarrow>
   sorted_wrt (\<lambda>a b. row_id a < row_id b) (cleanup_past_events now db)"
  by (simp add: cleanup_past_events_def Let_def sorted_wrt_filter)

lemma yyyy_mm_plain:
  assumes "yyyy_mm m"
  shows "plain_filter m"
proof -
  have dg: "c \<noteq> CHR ''%'' \<and> c \<noteq> CHR ''_'' \<and> \<not> ascii_letter c" if "isdigit c" for c
    using that by (auto simp: isdigit_def ascii_letter_def Let_def)
  from assms have "length m = 7" by (simp add: yyyy_mm_def)
  then obtain a b c d e f g where m: "m = [a, b, c, d, e, f, g]"
    by (auto simp: length_Suc_conv numeral_eq_Suc)
  from assms have "isdigit a" "isdigit b" "isdigit c" "isdigit d" "e = CHR ''-''" "isdigit f" "isdigit g"
    unfolding m by (simp_all add: yyyy_mm_def)
  then show ?thesis
    unfolding m by (simp add: plain_filter_def dg) (simp add: ascii_letter_def)
qed

text \<open>
  Claim C3. For every table (its rows in ascending id order, as a rowid scan yields them),
  every clock and every optional month filter of the form YYYY-MM, \<open>get_events\<close> first
  purges the events whose date text is strictly before today's and then returns exactly the
  remaining events whose date starts with the month prefix (all remaining events when no
  filter is given), each once, ordered ascending by date with ties broken by id ascending;
  the returned sequence never contains an event with date strictly before today's.
\<close>

theorem get_events_spec:
  "sorted_wrt (<) (map row_id db) \<and> (case month_arg of None \<Rightarrow> True | Some m \<Rightarrow> yyyy_mm m) \<longrightarrow>
     snd (get_events now month_arg db) = cleanup_past_events now db \<and>
     set (fst (get_events now month_arg db)) =
       {e \<in> set (cleanup_past_events now db). prefix (filter_prefix month_arg) (date e)} \<and>
     distinct (fst (get_events now month_arg db)) \<and>
     sorted_wrt date_then_id (fst (get_events now month_arg db)) \<and>
     (\<forall>e \<in> set (fst (get_events now month_arg db)). \<not> date e < strftime now)"
proof
  assume h: "sorted_wrt (<) (map row_id db) \<and>
    (case month_arg of None \<Rightarrow> True | Some m \<Rightarrow> yyyy_mm m)"
  let ?kept = "cleanup_past_events now db"
  let ?sel = "filter (\<lambda>e. prefix (filter_prefix month_arg) (date e)) ?kept"
  from h have ids: "sorted_wrt (\<lambda>a b. row_id a < row_id b) db"
    by (simp add: sorted_wrt_map)
  then have kept: "sorted_wrt (\<lambda>a b. row_id a < row_id b) ?kept"
    by (rule cleanup_sorted_ids)
  then have sel: "sorted_wrt (\<lambda>a b. row_id a < row_id b) ?sel"
    by (rule sorted_wrt_filter)
  from h have pl: "case month_arg of None \<Rightarrow> True | Some m \<Rightarrow> plain_filter m"
    by (cases month_arg) (simp_all add: yyyy_mm_plain)
  then have rows: "fst (get_events now month_arg db) = sort_key date ?sel"
    by (rule get_events_rows)
  have 1: "snd (get_events now month_arg db) = ?kept"
    by (simp add: get_events_def Let_def)
  have 2: "set (fst (get_events now month_arg db)) =
      {e \<in> set ?kept. prefix (filter_prefix month_arg) (date e)}"
    unfolding rows by simp
  have 3: "distinct (fst (get_events now month_arg db))"
    unfolding rows using distinct_ids [OF sel] by simp
  have 4: "sorted_wrt date_then_id (fst (get_events now month_arg db))"
    unfolding rows using sel by (rule sort_date_then_id)
  have 5: "\<forall>e \<in> set (fst (get_events now month_arg db)). \<not> date e < strftime now"
    unfolding 2 using cleanup_not_past [of now db] by simp
  show "snd (get_events now month_arg db) = cleanup_past_events now db \<and>
     set (fst (get_events now month_arg db)) =
       {e \<in> set (cleanup_past_events now db). prefix (filter_prefix month_arg) (date e)} \<and>
     distinct (fst (get_events now month_arg db)) \<and>
     sorted_wrt date_then_id (fst (get_events now month_arg db)) \<and>
     (\<forall>e \<in> set (fst (get_events now month_arg db)). \<not> date e < strftime now)"
    by (rule conjI [OF 1 conjI [OF 2 conjI [OF 3 conjI [OF 4 5]]]])
qed

theorem get_events_spec_witness:
  "sorted_wrt (<) (map row_id sample_db) \<and> yyyy_mm ''2999-01'' \<and>
   map row_id (fst (get_events clock_noon (Some ''2999-01'') sample_db)) = [3, 5] \<and>
   map row_id (fst (get_events clock_noon None sample_db)) = [4, 3, 5, 1] \<and>
   sorted_wrt date_then_id (fst (get_events clock_noon (Some ''2999-01'') sample_db)) \<and>
   snd (get_events clock_noon (Some ''2999-01'') sample_db) = cleanup_past_events clock_noon sample_db"
proof -
  have a: "sorted_wrt (<) (map row_id sample_db)"
    by (simp add: sample_db_def sample_event_def)
  have b: "yyyy_mm ''2999-01''"
    by (simp add: yyyy_mm_def isdigit_def)
  have c: "map row_id (fst (get_events clock_noon (Some ''2999-01'') sample_db)) = [3, 5]"
    by code_simp
  have d: "map row_id (fst (get_events clock_noon None sample_db)) = [4, 3, 5, 1]"
    by code_simp
  have h: "sorted_wrt (<) (map row_id sample_db) \<and>
      (case Some ''2999-01'' of None \<Rightarrow> True | Some m \<Rightarrow> yyyy_mm m)"
    using a b by simp
  note T = get_events_spec [where db = sample_db and month_arg = "Some ''2999-01''" and now = clock_noon,
      THEN mp, OF h]
  from T have e: "sorted_wrt date_then_id (fst (get_events clock_noon (Some ''2999-01'') sample_db))"
    by (rule conjunct1 [OF conjunct2 [OF conjunct2 [OF conjunct2]]])
  from T have f: "snd (get_events clock_noon (Some ''2999-01'') sample_db) =
      cleanup_past_events clock_noon sample_db"
    by (rule conjunct1)
  show ?thesis by (rule conjI [OF a conjI [OF b conjI [OF c conjI [OF d conjI [OF e f]]]]])
qed

end
